theory Spec2Isabelle
  imports Main
begin

section \<open>The quotes scraper of \<^verbatim>\<open>app/parse.py\<close>\<close>

text \<open>
  The script walks the listing pages of a quotes site, resolves every author's profile
  page through a process-wide cache keyed by the author's display name, and writes two
  CSV files. The development below embeds the script function by function. Whatever the
  script does besides returning a value is explicit: the cache, the requests sent, the
  log and the files are fields of a state that every function takes and returns, and an
  exception is the \<open>Inl\<close> of a sum. The state is returned beside the error too, because
  what a function did before it raised stays done.
\<close>

subsection \<open>Data model\<close>

text \<open>The two dataclasses. The field \<^verbatim>\<open>text\<close> of \<^verbatim>\<open>Quote\<close> is called \<open>quote_text\<close>
  here, \<open>text\<close> being a keyword.\<close>

record Quote =
  quote_text :: string
  author :: string
  tags :: "string list"

record Author =
  name :: string
  born_date :: string
  born_location :: string
  description :: string

definition BASE_URL :: string where
  "BASE_URL = ''https://quotes.toscrape.com/''"

definition QUOTE_FIELDS :: "string list" where
  "QUOTE_FIELDS = [''text'', ''author'', ''tags'']"

definition AUTHOR_FIELDS :: "string list" where
  "AUTHOR_FIELDS = [''name'', ''born_date'', ''born_location'', ''description'']"

text \<open>The exceptions the script can meet: \<^verbatim>\<open>requests.get\<close> raising on a transport
  failure, \<^verbatim>\<open>.text\<close> read on the \<^verbatim>\<open>None\<close> that \<^verbatim>\<open>select_one\<close> returns when nothing
  matches, \<^verbatim>\<open>None["href"]\<close>, a tag without the attribute \<^verbatim>\<open>href\<close>, and \<^verbatim>\<open>open\<close> or a
  write failing.\<close>

datatype error = RequestException | AttributeError | TypeError | KeyError | OSError

text \<open>The specification's two classes of failure.\<close>

fun FetchError :: "error \<Rightarrow> bool" where
  "FetchError RequestException = True"
| "FetchError _ = False"

fun ExtractionError :: "error \<Rightarrow> bool" where
  "ExtractionError AttributeError = True"
| "ExtractionError TypeError = True"
| "ExtractionError KeyError = True"
| "ExtractionError _ = False"

subsection \<open>Pages as the selectors see them\<close>

text \<open>
  The HTML parser and its CSS selectors are a library. A parsed document is represented
  by what the selectors used in the script return on it. On one quote container
  (an element of \<^verbatim>\<open>select(".quote")\<close>):
  \<^item> \<open>select_one_author\<close>: the \<^verbatim>\<open>.text\<close> of \<^verbatim>\<open>select_one(".author")\<close>, \<open>None\<close> when no
    node matches;
  \<^item> \<open>select_one_a\<close>: \<^verbatim>\<open>select_one("a")\<close>, \<open>None\<close> when the container has no link,
    \<open>Some None\<close> when its first link has no \<^verbatim>\<open>href\<close>, \<open>Some (Some h)\<close> otherwise;
  \<^item> \<open>select_one_text\<close>: the \<^verbatim>\<open>.text\<close> of \<^verbatim>\<open>select_one(".text")\<close>;
  \<^item> \<open>select_tag\<close>: the \<^verbatim>\<open>.text\<close> of every node of \<^verbatim>\<open>select(".tag")\<close>, in document order.
\<close>

record quote_soup =
  select_one_author :: "string option"
  select_one_a :: "string option option"
  select_one_text :: "string option"
  select_tag :: "string list"

text \<open>
  On a whole document: the quote containers in document order, whether
  \<^verbatim>\<open>select_one(".next")\<close> finds a node (a tag is always truthy), and the \<^verbatim>\<open>.text\<close> of the
  four nodes read on an author's profile page.
\<close>

record soup =
  select_quote :: "quote_soup list"
  select_one_next :: bool
  select_one_author_title :: "string option"
  select_one_author_born_date :: "string option"
  select_one_author_born_location :: "string option"
  select_one_author_description :: "string option"

text \<open>A response carries its HTTP status and its body, the body already as the parser
  reads it (\<^verbatim>\<open>html.parser\<close> accepts any bytes).\<close>

record response =
  status_code :: nat
  content :: soup

subsection \<open>The environment\<close>

text \<open>
  What the script does not decide is a parameter:
  \<^item> \<open>urljoin\<close>, the library function of \<^verbatim>\<open>urllib.parse\<close>;
  \<^item> \<open>transport\<close>, what \<^verbatim>\<open>requests.get\<close> does on a URL: it raises, or it returns a
    response, of whatever status. The site does not change during a run;
  \<^item> \<open>open_outcome\<close>, what happens to the \<open>n\<close>-th file the run opens for writing:
    \<^verbatim>\<open>open\<close> raises and the file is untouched, or the file is truncated and a write
    raises after some rows, or every row is written.
\<close>

datatype io_outcome = Completes | OpenFails | WriteFails nat

record world =
  urljoin :: "string \<Rightarrow> string \<Rightarrow> string"
  transport :: "string \<Rightarrow> error + response"
  open_outcome :: "nat \<Rightarrow> string \<Rightarrow> io_outcome"

subsection \<open>The state of the process\<close>

text \<open>One cell of a CSV row: \<^verbatim>\<open>astuple\<close> leaves a string a string and the tags a list,
  which the writer prints as a single field.\<close>

datatype cell = Str string | StrList "string list"

text \<open>What a request is for. The script does not record it; it is kept beside the URL in
  the trace so that a listing request and a profile request of the same URL stay apart.\<close>

datatype purpose = Listing nat | Profile string

text \<open>
  \<open>AUTHOR_CACHE\<close> is the module's dictionary, in insertion order. \<open>fetched\<close> is the
  sequence of calls of \<^verbatim>\<open>requests.get\<close>, \<open>logged\<close> the messages given to \<^verbatim>\<open>logging.info\<close>,
  \<open>opened\<close> the paths given to \<^verbatim>\<open>open\<close>, and \<open>files\<close> the rows of each file that exists.
  A path stands for the file it denotes.
\<close>

record state =
  AUTHOR_CACHE :: "(string \<times> Author) list"
  fetched :: "(purpose \<times> string) list"
  logged :: "string list"
  opened :: "string list"
  files :: "string \<Rightarrow> cell list list option"

text \<open>The state of a fresh process: the cache is the empty dictionary of line 12.\<close>

definition fresh :: "(string \<Rightarrow> cell list list option) \<Rightarrow> state" where
  "fresh fs = \<lparr>AUTHOR_CACHE = [], fetched = [], logged = [], opened = [], files = fs\<rparr>"

text \<open>Dictionary operations: the keys in insertion order, \<^verbatim>\<open>d[k] = v\<close> (a present key keeps
  its place, a new key goes last) and \<^verbatim>\<open>d.values()\<close>.\<close>

definition keys :: "(string \<times> 'v) list \<Rightarrow> string list" where
  "keys d = map fst d"

fun dict_set :: "(string \<times> 'v) list \<Rightarrow> string \<Rightarrow> 'v \<Rightarrow> (string \<times> 'v) list" where
  "dict_set [] k v = [(k, v)]"
| "dict_set ((k', v') # d) k v = (if k' = k then (k, v) # d else (k', v') # dict_set d k v)"

definition dict_values :: "(string \<times> 'v) list \<Rightarrow> 'v list" where
  "dict_values d = map snd d"

text \<open>\<^verbatim>\<open>str\<close> of a page number, which starts at 1 and only grows.\<close>

definition digit :: "nat \<Rightarrow> char" where
  "digit n = ''0123456789'' ! (n mod 10)"

fun str :: "nat \<Rightarrow> string" where
  "str n = (if n < 10 then [digit n] else str (n div 10) @ [digit n])"

declare str.simps [simp del]

subsection \<open>The functions of the script\<close>

definition logging_info :: "string \<Rightarrow> state \<Rightarrow> state" where
  "logging_info msg s = s\<lparr>logged := logged s @ [msg]\<rparr>"

text \<open>\<^verbatim>\<open>requests.get(url)\<close>: the request is sent, and the transport answers or raises. The
  status of the answer is not looked at, here or by any caller.\<close>

definition requests_get :: "world \<Rightarrow> purpose \<Rightarrow> string \<Rightarrow> state \<Rightarrow> (error + response) \<times> state" where
  "requests_get w p url s = (transport w url, s\<lparr>fetched := fetched s @ [(p, url)]\<rparr>)"

text \<open>The four \<^verbatim>\<open>.text\<close> reads of lines 48 to 51, in order; the first \<^verbatim>\<open>None\<close> raises.\<close>

definition author_of_page :: "soup \<Rightarrow> error + Author" where
  "author_of_page sp =
     (case select_one_author_title sp of
        None \<Rightarrow> Inl AttributeError
      | Some n \<Rightarrow>
     (case select_one_author_born_date sp of
        None \<Rightarrow> Inl AttributeError
      | Some d \<Rightarrow>
     (case select_one_author_born_location sp of
        None \<Rightarrow> Inl AttributeError
      | Some l \<Rightarrow>
     (case select_one_author_description sp of
        None \<Rightarrow> Inl AttributeError
      | Some t \<Rightarrow> Inr \<lparr>name = n, born_date = d, born_location = l, description = t\<rparr>))))"

definition parse_single_author :: "world \<Rightarrow> string \<Rightarrow> string \<Rightarrow> state \<Rightarrow> (error + unit) \<times> state" where
  "parse_single_author w author_name author_url s =
     (if author_name \<notin> set (keys (AUTHOR_CACHE s)) then
        (case requests_get w (Profile author_name) (urljoin w BASE_URL author_url) s of
           (Inl e, s1) \<Rightarrow> (Inl e, s1)
         | (Inr page, s1) \<Rightarrow>
             (case author_of_page (content page) of
                Inl e \<Rightarrow> (Inl e, s1)
              | Inr a \<Rightarrow> (Inr (), s1\<lparr>AUTHOR_CACHE := dict_set (AUTHOR_CACHE s1) author_name a\<rparr>)))
      else (Inr (), logging_info (''Getting author '' @ author_name @ '' from cache'') s))"

text \<open>Line 60: \<^verbatim>\<open>select_one("a")["href"]\<close>.\<close>

definition href_of :: "string option option \<Rightarrow> error + string" where
  "href_of a =
     (case a of None \<Rightarrow> Inl TypeError | Some None \<Rightarrow> Inl KeyError | Some (Some h) \<Rightarrow> Inr h)"

definition parse_single_quote :: "world \<Rightarrow> quote_soup \<Rightarrow> state \<Rightarrow> (error + Quote) \<times> state" where
  "parse_single_quote w quote_soup s =
     (case select_one_author quote_soup of
        None \<Rightarrow> (Inl AttributeError, s)
      | Some author_name \<Rightarrow>
     (case href_of (select_one_a quote_soup) of
        Inl e \<Rightarrow> (Inl e, s)
      | Inr author_url \<Rightarrow>
     (case parse_single_author w author_name author_url s of
        (Inl e, s1) \<Rightarrow> (Inl e, s1)
      | (Inr _, s1) \<Rightarrow>
     (case select_one_text quote_soup of
        None \<Rightarrow> (Inl AttributeError, s1)
      | Some t \<Rightarrow>
          (Inr \<lparr>quote_text = t, author = author_name, tags = select_tag quote_soup\<rparr>, s1)))))"

text \<open>The list comprehension of line 72, container by container; an exception ends it.\<close>

fun parse_each :: "world \<Rightarrow> quote_soup list \<Rightarrow> state \<Rightarrow> (error + Quote list) \<times> state" where
  "parse_each w [] s = (Inr [], s)"
| "parse_each w (quote_soup # rest) s =
     (case parse_single_quote w quote_soup s of
        (Inl e, s1) \<Rightarrow> (Inl e, s1)
      | (Inr q, s1) \<Rightarrow>
          (case parse_each w rest s1 of
             (Inl e, s2) \<Rightarrow> (Inl e, s2)
           | (Inr qs, s2) \<Rightarrow> (Inr (q # qs), s2)))"

definition get_single_page_quotes :: "world \<Rightarrow> soup \<Rightarrow> state \<Rightarrow> (error + Quote list) \<times> state" where
  "get_single_page_quotes w page_soup s = parse_each w (select_quote page_soup) s"

definition is_next_page :: "soup \<Rightarrow> bool" where
  "is_next_page page_soup = select_one_next page_soup"

text \<open>The URL of listing page \<open>n\<close>: the base address itself for the first page (line 81),
  \<^verbatim>\<open>urljoin(BASE_URL, f"page/{n}/")\<close> for the others (line 89).\<close>

definition page_url :: "world \<Rightarrow> nat \<Rightarrow> string" where
  "page_url w n = (if n = 1 then BASE_URL else urljoin w BASE_URL (''page/'' @ str n @ ''/''))"

text \<open>
  The \<^verbatim>\<open>while\<close> loop of lines 86 to 91, entered with the page just parsed, the quotes so
  far and the current page number. Nothing bounds it, so it is a partial function:
  \<open>None\<close> is a loop that never ends.
\<close>

partial_function (option) get_quotes_loop ::
  "world \<Rightarrow> soup \<Rightarrow> Quote list \<Rightarrow> nat \<Rightarrow> state \<Rightarrow> ((error + Quote list) \<times> state) option" where
  "get_quotes_loop w soup all_quotes page_num s =
     (if is_next_page soup then
        (case requests_get w (Listing (page_num + 1))
                (urljoin w BASE_URL (''page/'' @ str (page_num + 1) @ ''/''))
                (logging_info (''Start parsing page '' @ str (page_num + 1)) s) of
           (Inl e, s1) \<Rightarrow> Some (Inl e, s1)
         | (Inr page, s1) \<Rightarrow>
             (case get_single_page_quotes w (content page) s1 of
                (Inl e, s2) \<Rightarrow> Some (Inl e, s2)
              | (Inr quotes, s2) \<Rightarrow>
                  get_quotes_loop w (content page) (all_quotes @ quotes) (page_num + 1) s2))
      else Some (Inr all_quotes, s))"

definition get_quotes :: "world \<Rightarrow> state \<Rightarrow> ((error + Quote list) \<times> state) option" where
  "get_quotes w s =
     (case requests_get w (Listing 1) BASE_URL (logging_info ''Start parsing Quotes'' s) of
        (Inl e, s1) \<Rightarrow> Some (Inl e, s1)
      | (Inr page, s1) \<Rightarrow>
          (case get_single_page_quotes w (content page) s1 of
             (Inl e, s2) \<Rightarrow> Some (Inl e, s2)
           | (Inr all_quotes, s2) \<Rightarrow> get_quotes_loop w (content page) all_quotes 1 s2))"

text \<open>\<^verbatim>\<open>astuple\<close> of the two dataclasses, and a header row.\<close>

definition astuple_Quote :: "Quote \<Rightarrow> cell list" where
  "astuple_Quote q = [Str (quote_text q), Str (author q), StrList (tags q)]"

definition astuple_Author :: "Author \<Rightarrow> cell list" where
  "astuple_Author a = [Str (name a), Str (born_date a), Str (born_location a), Str (description a)]"

definition header :: "string list \<Rightarrow> cell list" where
  "header field_names = map Str field_names"

text \<open>
  \<^verbatim>\<open>with open(path, "w") as file: ... writerow ... writerows\<close>. Opening for writing empties
  the file before the first row is written, so a write that raises after \<open>k\<close> rows leaves
  those \<open>k\<close> rows and nothing of what the file held.
\<close>

definition write_csv :: "world \<Rightarrow> string \<Rightarrow> cell list list \<Rightarrow> state \<Rightarrow> (error + unit) \<times> state" where
  "write_csv w path rows s =
     (case open_outcome w (length (opened s)) path of
        OpenFails \<Rightarrow> (Inl OSError, s\<lparr>opened := opened s @ [path]\<rparr>)
      | WriteFails k \<Rightarrow>
          (Inl OSError, s\<lparr>opened := opened s @ [path], files := (files s)(path \<mapsto> take k rows)\<rparr>)
      | Completes \<Rightarrow>
          (Inr (), s\<lparr>opened := opened s @ [path], files := (files s)(path \<mapsto> rows)\<rparr>))"

definition write_quotes_to_csv :: "world \<Rightarrow> string \<Rightarrow> Quote list \<Rightarrow> state \<Rightarrow> (error + unit) \<times> state" where
  "write_quotes_to_csv w output_csv_path quotes s =
     write_csv w output_csv_path (header QUOTE_FIELDS # map astuple_Quote quotes) s"

definition write_author_to_csv :: "world \<Rightarrow> string \<Rightarrow> state \<Rightarrow> (error + unit) \<times> state" where
  "write_author_to_csv w csv_path s =
     write_csv w csv_path (header AUTHOR_FIELDS # map astuple_Author (dict_values (AUTHOR_CACHE s))) s"

definition main :: "world \<Rightarrow> string \<Rightarrow> state \<Rightarrow> ((error + unit) \<times> state) option" where
  "main w output_csv_path s =
     (case get_quotes w s of
        None \<Rightarrow> None
      | Some (Inl e, s1) \<Rightarrow> Some (Inl e, s1)
      | Some (Inr quotes, s1) \<Rightarrow>
          (case write_quotes_to_csv w output_csv_path quotes s1 of
             (Inl e, s2) \<Rightarrow> Some (Inl e, s2)
           | (Inr _, s2) \<Rightarrow> Some (write_author_to_csv w ''author.csv'' s2)))"

section \<open>Notions used to state the properties\<close>

subsection \<open>Observing a run\<close>

text \<open>A run that ends yields a result and a final state; \<open>outcome\<close> is the result alone and
  \<open>file_after\<close> the rows of one file in the final state.\<close>

definition outcome :: "('r \<times> state) option \<Rightarrow> 'r option" where
  "outcome x = map_option fst x"

definition file_after :: "('r \<times> state) option \<Rightarrow> string \<Rightarrow> cell list list option" where
  "file_after x path = (case x of None \<Rightarrow> None | Some (r, s) \<Rightarrow> files s path)"

text \<open>The listing requests of a trace, in the order they were sent.\<close>

fun is_listing :: "purpose \<Rightarrow> bool" where
  "is_listing (Listing n) = True"
| "is_listing (Profile a) = False"

definition listing_requests :: "(purpose \<times> string) list \<Rightarrow> (purpose \<times> string) list" where
  "listing_requests tr = filter (\<lambda>r. is_listing (fst r)) tr"

text \<open>The requests for the listing pages whose numbers are given.\<close>

definition requests_of_pages :: "world \<Rightarrow> nat list \<Rightarrow> (purpose \<times> string) list" where
  "requests_of_pages w ns = map (\<lambda>i. (Listing i, page_url w i)) ns"

text \<open>What the walk leaves alone whatever it does: no file is opened or changed, and the
  cache only gains entries at its end.\<close>

definition walk_frame :: "state \<Rightarrow> state \<Rightarrow> bool" where
  "walk_frame s s' \<longleftrightarrow>
     opened s' = opened s \<and> files s' = files s \<and>
     (\<exists>new. AUTHOR_CACHE s' = AUTHOR_CACHE s @ new)"

subsection \<open>The site as a chain of listing pages\<close>

text \<open>
  Listing page \<open>n\<close> as the transport serves it, whether it carries the next-page
  indicator, and its quote containers. \<open>chain w k\<close>: pages 1 to \<open>k\<close> can be fetched, pages
  1 to \<open>k - 1\<close> carry the indicator and page \<open>k\<close> does not.
\<close>

definition page_at :: "world \<Rightarrow> nat \<Rightarrow> soup option" where
  "page_at w n = (case transport w (page_url w n) of Inl e \<Rightarrow> None | Inr r \<Rightarrow> Some (content r))"

definition has_next :: "world \<Rightarrow> nat \<Rightarrow> bool" where
  "has_next w n = (case page_at w n of None \<Rightarrow> False | Some sp \<Rightarrow> is_next_page sp)"

definition is_last :: "world \<Rightarrow> nat \<Rightarrow> bool" where
  "is_last w n = (case page_at w n of None \<Rightarrow> False | Some sp \<Rightarrow> \<not> is_next_page sp)"

definition quotes_on :: "world \<Rightarrow> nat \<Rightarrow> quote_soup list" where
  "quotes_on w n = (case page_at w n of None \<Rightarrow> [] | Some sp \<Rightarrow> select_quote sp)"

definition chain :: "world \<Rightarrow> nat \<Rightarrow> bool" where
  "chain w k \<longleftrightarrow> 1 \<le> k \<and> list_all (has_next w) [1..<k] \<and> is_last w k"

text \<open>
  The Quote that a container yields when nothing raises (\<open>None\<close> when the text or the
  author node is absent), and the quotes of pages 1 to \<open>k\<close>: page after page, and within
  a page in document order.
\<close>

definition quote_of :: "quote_soup \<Rightarrow> Quote option" where
  "quote_of c =
     (case select_one_text c of
        None \<Rightarrow> None
      | Some t \<Rightarrow>
          (case select_one_author c of
             None \<Rightarrow> None
           | Some a \<Rightarrow> Some \<lparr>quote_text = t, author = a, tags = select_tag c\<rparr>))"

definition page_quotes :: "world \<Rightarrow> nat \<Rightarrow> Quote option list" where
  "page_quotes w k = concat (map (\<lambda>i. map quote_of (quotes_on w i)) [1..<Suc k])"

text \<open>The names of a list in the order in which each is first seen, after those already
  known.\<close>

fun first_seen :: "string list \<Rightarrow> string list \<Rightarrow> string list" where
  "first_seen acc [] = acc"
| "first_seen acc (x # xs) = first_seen (if x \<in> set acc then acc else acc @ [x]) xs"

text \<open>The state after the log line and the request that open the walk, and after those
  that open page \<open>n + 1\<close>.\<close>

definition start_state :: "state \<Rightarrow> state" where
  "start_state s = (logging_info ''Start parsing Quotes'' s)\<lparr>fetched := fetched s @ [(Listing 1, BASE_URL)]\<rparr>"

definition next_state :: "world \<Rightarrow> nat \<Rightarrow> state \<Rightarrow> state" where
  "next_state w n s =
     (logging_info (''Start parsing page '' @ str (Suc n)) s)
       \<lparr>fetched := fetched s @ [(Listing (Suc n), page_url w (Suc n))]\<rparr>"

text \<open>
  What holds when the loop, entered on page \<open>n\<close>, returns: it requested the pages
  \<open>n + 1\<close> to some \<open>j\<close>, in order, all pages before \<open>j\<close> carrying the indicator; and if
  it returned quotes, page \<open>j\<close> carries no indicator and the quotes are the ones it was
  entered with followed by those of the pages \<open>n + 1\<close> to \<open>j\<close>.
\<close>

definition loop_post ::
  "world \<Rightarrow> soup \<Rightarrow> Quote list \<Rightarrow> nat \<Rightarrow> state \<Rightarrow> (error + Quote list) \<times> state \<Rightarrow> bool" where
  "loop_post w soup acc n s res \<longleftrightarrow>
     (1 \<le> n \<and> page_at w n = Some soup \<longrightarrow>
       (\<exists>j\<ge>n. walk_frame s (snd res) \<and>
          listing_requests (fetched (snd res)) =
            listing_requests (fetched s) @ requests_of_pages w [Suc n..<Suc j] \<and>
          list_all (has_next w) [n..<j] \<and>
          (\<forall>qs. fst res = Inr qs \<longrightarrow>
             is_last w j \<and>
             (\<exists>new. qs = acc @ new \<and>
                map Some new = concat (map (\<lambda>i. map quote_of (quotes_on w i)) [Suc n..<Suc j]) \<and>
                keys (AUTHOR_CACHE (snd res)) = first_seen (keys (AUTHOR_CACHE s)) (map author new)))))"

subsection \<open>Author resolution\<close>

text \<open>
  A profile page that can be fetched and has the four nodes; a container with the three
  nodes that \<^verbatim>\<open>parse_single_quote\<close> reads for itself; a container whose author can be
  resolved, being in the cache already or having such a profile page.
\<close>

definition profile_ok :: "world \<Rightarrow> string \<Rightarrow> bool" where
  "profile_ok w author_url =
     (case transport w (urljoin w BASE_URL author_url) of
        Inl e \<Rightarrow> False
      | Inr page \<Rightarrow>
          select_one_author_title (content page) \<noteq> None \<and>
          select_one_author_born_date (content page) \<noteq> None \<and>
          select_one_author_born_location (content page) \<noteq> None \<and>
          select_one_author_description (content page) \<noteq> None)"

definition complete :: "quote_soup \<Rightarrow> bool" where
  "complete c \<longleftrightarrow>
     select_one_text c \<noteq> None \<and> select_one_author c \<noteq> None \<and>
     (case select_one_a c of Some (Some h) \<Rightarrow> True | _ \<Rightarrow> False)"

definition resolvable :: "world \<Rightarrow> state \<Rightarrow> quote_soup \<Rightarrow> bool" where
  "resolvable w s c =
     (case select_one_author c of
        None \<Rightarrow> True
      | Some a \<Rightarrow>
          (case select_one_a c of
             Some (Some h) \<Rightarrow> a \<in> set (keys (AUTHOR_CACHE s)) \<or> profile_ok w h
           | _ \<Rightarrow> True))"


subsection \<open>HTTP status\<close>

text \<open>The same environment with every response given the status \<open>st\<close> assigns to its URL,
  and the status served for a URL.\<close>

definition with_status :: "(string \<Rightarrow> nat) \<Rightarrow> world \<Rightarrow> world" where
  "with_status st w =
     w\<lparr>transport := (\<lambda>url. case transport w url of
                               Inl e \<Rightarrow> Inl e
                             | Inr r \<Rightarrow> Inr (r\<lparr>status_code := st url\<rparr>))\<rparr>"

definition status_at :: "world \<Rightarrow> string \<Rightarrow> nat option" where
  "status_at w url = (case transport w url of Inl e \<Rightarrow> None | Inr r \<Rightarrow> Some (status_code r))"

section \<open>Example sites\<close>

text \<open>
  A site of two listing pages, three quotes and two authors, with \<^verbatim>\<open>urljoin\<close> as plain
  concatenation (which is what it does on this base address and these relative paths),
  and variants of it: a disk that fails while the second file is written, a second page
  with a container that lacks its text, every response with status 404, no network at
  all, and a profile page without the expected nodes.
\<close>

definition listing_page :: "quote_soup list \<Rightarrow> bool \<Rightarrow> soup" where
  "listing_page containers nx =
     \<lparr>select_quote = containers, select_one_next = nx,
      select_one_author_title = None, select_one_author_born_date = None,
      select_one_author_born_location = None, select_one_author_description = None\<rparr>"

definition author_page :: "string \<Rightarrow> string \<Rightarrow> string \<Rightarrow> string \<Rightarrow> soup" where
  "author_page n d l t =
     \<lparr>select_quote = [], select_one_next = False,
      select_one_author_title = Some n, select_one_author_born_date = Some d,
      select_one_author_born_location = Some l, select_one_author_description = Some t\<rparr>"

definition container :: "string \<Rightarrow> string \<Rightarrow> string \<Rightarrow> string list \<Rightarrow> quote_soup" where
  "container t a h tg =
     \<lparr>select_one_author = Some a, select_one_a = Some (Some h),
      select_one_text = Some t, select_tag = tg\<rparr>"

definition ok :: "soup \<Rightarrow> error + response" where
  "ok sp = Inr \<lparr>status_code = 200, content = sp\<rparr>"

definition demo_first_page :: soup where
  "demo_first_page =
     listing_page [container ''To be.'' ''Alice'' ''author/alice'' [''life''],
                   container ''Or not.'' ''Alice'' ''author/alice'' []] True"

definition demo_site :: "string \<Rightarrow> error + response" where
  "demo_site url =
     (if url = ''https://quotes.toscrape.com/'' then ok demo_first_page
      else if url = ''https://quotes.toscrape.com/page/2/'' then
        ok (listing_page [container ''Why?'' ''Bob'' ''author/bob'' [''q'', ''q'']] False)
      else if url = ''https://quotes.toscrape.com/author/alice'' then
        ok (author_page ''Alice A.'' ''May 1, 1900'' ''in Paris'' ''A writer.'')
      else if url = ''https://quotes.toscrape.com/author/bob'' then
        ok (author_page ''Bob'' ''June 2, 1901'' ''in Rome'' ''A poet.'')
      else Inl RequestException)"

definition demo_world :: world where
  "demo_world = \<lparr>urljoin = (\<lambda>base url. base @ url), transport = demo_site,
                 open_outcome = (\<lambda>n path. Completes)\<rparr>"

definition demo_quotes :: "Quote list" where
  "demo_quotes =
     [\<lparr>quote_text = ''To be.'', author = ''Alice'', tags = [''life'']\<rparr>,
      \<lparr>quote_text = ''Or not.'', author = ''Alice'', tags = []\<rparr>,
      \<lparr>quote_text = ''Why?'', author = ''Bob'', tags = [''q'', ''q'']\<rparr>]"

definition failing_disk_world :: world where
  "failing_disk_world = demo_world\<lparr>open_outcome := (\<lambda>n path. if n = 1 then WriteFails 1 else Completes)\<rparr>"

definition broken_page :: soup where
  "broken_page =
     listing_page [\<lparr>select_one_author = Some ''Bob'', select_one_a = Some (Some ''author/bob''),
                    select_one_text = None, select_tag = []\<rparr>] False"



definition alice_cached :: state where
  "alice_cached =
     (fresh Map.empty)\<lparr>AUTHOR_CACHE :=
        [(''Alice'', \<lparr>name = ''Alice A.'', born_date = ''May 1, 1900'',
                      born_location = ''in Paris'', description = ''A writer.''\<rparr>)]\<rparr>"

definition error_status_world :: world where
  "error_status_world = with_status (\<lambda>url. 404) demo_world"

definition offline_world :: world where
  "offline_world = demo_world\<lparr>transport := (\<lambda>url. Inl RequestException)\<rparr>"

definition missing_profile_world :: world where
  "missing_profile_world =
     demo_world\<lparr>transport := (\<lambda>url. if url = ''https://quotes.toscrape.com/author/alice''
                                      then ok (listing_page [] False) else demo_site url)\<rparr>"

section \<open>Lemmas\<close>

lemmas run_defs =
  main_def get_quotes_def get_quotes_loop.simps get_single_page_quotes_def parse_single_quote_def
  parse_single_author_def author_of_page_def href_of_def requests_get_def logging_info_def
  is_next_page_def keys_def dict_values_def BASE_URL_def str.simps digit_def
  write_quotes_to_csv_def write_author_to_csv_def write_csv_def header_def QUOTE_FIELDS_def
  AUTHOR_FIELDS_def astuple_Quote_def astuple_Author_def fresh_def outcome_def file_after_def

lemmas demo_defs =
  demo_world_def demo_site_def demo_first_page_def listing_page_def author_page_def container_def ok_def demo_quotes_def
  failing_disk_world_def


lemmas more_defs = error_status_world_def offline_world_def
  missing_profile_world_def with_status_def status_at_def profile_ok_def complete_def resolvable_def

subsection \<open>Dictionaries and first-seen order\<close>

lemma dict_set_new: "k \<notin> set (keys d) \<Longrightarrow> dict_set d k v = d @ [(k, v)]"
  by (induction d) (auto simp: keys_def)

lemma first_seen_append: "first_seen acc (xs @ ys) = first_seen (first_seen acc xs) ys"
  by (induction xs arbitrary: acc) auto

lemma distinct_first_seen: "distinct acc \<Longrightarrow> distinct (first_seen acc xs)"
  by (induction xs arbitrary: acc) auto

lemma set_first_seen: "set (first_seen acc xs) = set acc \<union> set xs"
  by (induction xs arbitrary: acc) auto

lemma one_entry_per_key:
  "distinct (keys d) \<Longrightarrow> k \<in> set (keys d) \<Longrightarrow> length (filter (\<lambda>entry. fst entry = k) d) = 1"
proof (induction d)
  case Nil
  then show ?case by (simp add: keys_def)
next
  case (Cons x d)
  show ?case
  proof (cases "fst x = k")
    case True
    from Cons.prems(1) have nin: "fst x \<notin> set (map fst d)"
      by (simp add: keys_def)
    have "\<forall>entry\<in>set d. fst entry \<noteq> k"
    proof
      fix entry assume "entry \<in> set d"
      then have "fst entry \<in> set (map fst d)" by simp
      with nin True show "fst entry \<noteq> k" by metis
    qed
    then have "filter (\<lambda>entry. fst entry = k) d = []"
      by (simp add: filter_empty_conv)
    with True show ?thesis by simp
  next
    case False
    with Cons show ?thesis by (simp add: keys_def)
  qed
qed

lemma walk_frame_refl: "walk_frame s s"
  by (simp add: walk_frame_def)

lemma walk_frame_trans: "walk_frame s s1 \<Longrightarrow> walk_frame s1 s2 \<Longrightarrow> walk_frame s s2"
  by (auto simp: walk_frame_def)

subsection \<open>Resolving one author\<close>

lemma parse_single_author_hit:
  "author_name \<in> set (keys (AUTHOR_CACHE s)) \<Longrightarrow>
   parse_single_author w author_name author_url s =
     (Inr (), logging_info (''Getting author '' @ author_name @ '' from cache'') s)"
  by (simp add: parse_single_author_def)

lemma parse_single_author_miss:
  "author_name \<notin> set (keys (AUTHOR_CACHE s)) \<Longrightarrow>
   parse_single_author w author_name author_url s =
     (case transport w (urljoin w BASE_URL author_url) of
        Inl e \<Rightarrow> (Inl e, s\<lparr>fetched := fetched s @ [(Profile author_name, urljoin w BASE_URL author_url)]\<rparr>)
      | Inr page \<Rightarrow>
          (case author_of_page (content page) of
             Inl e \<Rightarrow> (Inl e, s\<lparr>fetched := fetched s @ [(Profile author_name, urljoin w BASE_URL author_url)]\<rparr>)
           | Inr a \<Rightarrow> (Inr (), s\<lparr>fetched := fetched s @ [(Profile author_name, urljoin w BASE_URL author_url)],
                                 AUTHOR_CACHE := AUTHOR_CACHE s @ [(author_name, a)]\<rparr>)))"
  by (simp add: parse_single_author_def requests_get_def dict_set_new split: sum.splits)

lemma parse_single_author_frame:
  "parse_single_author w n u s = (r, s') \<Longrightarrow>
     walk_frame s s' \<and> listing_requests (fetched s') = listing_requests (fetched s)"
  by (cases "n \<in> set (keys (AUTHOR_CACHE s))")
     (auto simp: parse_single_author_hit parse_single_author_miss walk_frame_def logging_info_def
        listing_requests_def split: sum.splits)

lemma parse_single_author_failure:
  "parse_single_author w n u s = (Inl e, s') \<Longrightarrow> AUTHOR_CACHE s' = AUTHOR_CACHE s"
  by (cases "n \<in> set (keys (AUTHOR_CACHE s))")
     (auto simp: parse_single_author_hit parse_single_author_miss split: sum.splits)

lemma parse_single_author_success:
  "parse_single_author w n u s = (Inr x, s') \<Longrightarrow>
     keys (AUTHOR_CACHE s') = first_seen (keys (AUTHOR_CACHE s)) [n]"
  by (cases "n \<in> set (keys (AUTHOR_CACHE s))")
     (auto simp: parse_single_author_hit parse_single_author_miss logging_info_def keys_def split: sum.splits)

lemma author_of_page_isl:
  "isl (author_of_page sp) \<longleftrightarrow>
     \<not> (select_one_author_title sp \<noteq> None \<and> select_one_author_born_date sp \<noteq> None \<and>
        select_one_author_born_location sp \<noteq> None \<and> select_one_author_description sp \<noteq> None)"
  by (auto simp: author_of_page_def split: option.splits)

lemma author_of_page_Inl: "author_of_page sp = Inl e \<Longrightarrow> e = AttributeError"
  by (auto simp: author_of_page_def split: option.splits)

lemma parse_single_author_isl:
  "isl (fst (parse_single_author w n u s)) \<longleftrightarrow> n \<notin> set (keys (AUTHOR_CACHE s)) \<and> \<not> profile_ok w u"
proof (cases "n \<in> set (keys (AUTHOR_CACHE s))")
  case True
  then show ?thesis by (simp add: parse_single_author_hit)
next
  case False
  show ?thesis
  proof (cases "transport w (urljoin w BASE_URL u)")
    case (Inl e)
    with False show ?thesis by (simp add: parse_single_author_miss profile_ok_def)
  next
    case (Inr page)
    with False author_of_page_isl [of "content page"] show ?thesis
      by (cases "author_of_page (content page)") (simp_all add: parse_single_author_miss profile_ok_def)
  qed
qed

lemma parse_single_author_Inl:
  assumes "parse_single_author w n u s = (Inl e, s')"
  shows "transport w (urljoin w BASE_URL u) = Inl e \<or> e = AttributeError"
proof -
  from assms have "isl (fst (parse_single_author w n u s))" by simp
  then have miss: "n \<notin> set (keys (AUTHOR_CACHE s))" by (simp add: parse_single_author_isl)
  show ?thesis
    using assms
    by (auto simp: parse_single_author_miss [OF miss] split: sum.splits dest: author_of_page_Inl)
qed



subsection \<open>Extracting the quotes of a page\<close>

lemma parse_single_quote_frame:
  "parse_single_quote w c s = (r, s') \<Longrightarrow>
     walk_frame s s' \<and> listing_requests (fetched s') = listing_requests (fetched s)"
  by (auto simp: parse_single_quote_def walk_frame_refl split: option.splits sum.splits prod.splits
       dest: parse_single_author_frame)

lemma parse_single_quote_success:
  "parse_single_quote w c s = (Inr q, s') \<Longrightarrow>
     quote_of c = Some q \<and> keys (AUTHOR_CACHE s') = first_seen (keys (AUTHOR_CACHE s)) [author q]"
  by (auto simp: parse_single_quote_def quote_of_def split: option.splits sum.splits prod.splits
       dest: parse_single_author_success)

lemma parse_each_frame:
  "parse_each w cs s = (r, s') \<Longrightarrow>
     walk_frame s s' \<and> listing_requests (fetched s') = listing_requests (fetched s)"
proof (induction cs arbitrary: s r s')
  case Nil
  then show ?case by (simp add: walk_frame_refl)
next
  case (Cons c cs)
  obtain r1 s1 where one: "parse_single_quote w c s = (r1, s1)"
    by (cases "parse_single_quote w c s")
  note f1 = parse_single_quote_frame [OF one]
  show ?case
  proof (cases r1)
    case (Inl e)
    with Cons.prems one f1 show ?thesis by simp
  next
    case (Inr q)
    obtain r2 s2 where rest: "parse_each w cs s1 = (r2, s2)"
      by (cases "parse_each w cs s1")
    note f2 = Cons.IH [OF rest]
    from Cons.prems one Inr rest have "s' = s2"
      by (auto split: sum.splits)
    with f1 f2 show ?thesis
      by (auto intro: walk_frame_trans)
  qed
qed

lemma parse_each_success:
  "parse_each w cs s = (Inr qs, s') \<Longrightarrow>
     map quote_of cs = map Some qs \<and>
     keys (AUTHOR_CACHE s') = first_seen (keys (AUTHOR_CACHE s)) (map author qs)"
proof (induction cs arbitrary: s qs s')
  case Nil
  then show ?case by auto
next
  case (Cons c cs)
  from Cons.prems obtain q s1 qs' where
    one: "parse_single_quote w c s = (Inr q, s1)" and
    rest: "parse_each w cs s1 = (Inr qs', s')" and
    qs: "qs = q # qs'"
    by (auto split: sum.splits prod.splits)
  from parse_single_quote_success [OF one] Cons.IH [OF rest] qs
  show ?case by simp
qed

lemma get_single_page_quotes_frame:
  "get_single_page_quotes w sp s = (r, s') \<Longrightarrow>
     walk_frame s s' \<and> listing_requests (fetched s') = listing_requests (fetched s)"
  unfolding get_single_page_quotes_def by (rule parse_each_frame)

lemma get_single_page_quotes_success:
  "get_single_page_quotes w sp s = (Inr qs, s') \<Longrightarrow>
     map quote_of (select_quote sp) = map Some qs \<and>
     keys (AUTHOR_CACHE s') = first_seen (keys (AUTHOR_CACHE s)) (map author qs)"
  unfolding get_single_page_quotes_def by (rule parse_each_success)

lemma resolvable_mono:
  assumes "walk_frame s s1" "resolvable w s c"
  shows "resolvable w s1 c"
proof -
  from assms(1) have "set (keys (AUTHOR_CACHE s)) \<subseteq> set (keys (AUTHOR_CACHE s1))"
    by (auto simp: walk_frame_def keys_def)
  with assms(2) show ?thesis
    by (auto simp: resolvable_def split: option.splits)
qed

lemma parse_single_quote_resolvable:
  assumes "resolvable w s c"
  shows "case fst (parse_single_quote w c s) of
           Inl e \<Rightarrow> ExtractionError e \<and> \<not> complete c
         | Inr q \<Rightarrow> complete c \<and> quote_of c = Some q"
proof (cases "select_one_author c")
  case None
  then show ?thesis by (simp add: parse_single_quote_def complete_def)
next
  case a: (Some a)
  show ?thesis
  proof (cases "select_one_a c")
    case None
    with a show ?thesis by (simp add: parse_single_quote_def complete_def href_of_def)
  next
    case link: (Some l)
    show ?thesis
    proof (cases l)
      case None
      with a link show ?thesis by (simp add: parse_single_quote_def complete_def href_of_def)
    next
      case h: (Some h)
      from assms a link h have "a \<in> set (keys (AUTHOR_CACHE s)) \<or> profile_ok w h"
        by (simp add: resolvable_def)
      then have ok: "\<not> isl (fst (parse_single_author w a h s))"
        by (auto simp: parse_single_author_isl)
      obtain r1 s1 where p: "parse_single_author w a h s = (r1, s1)"
        by (cases "parse_single_author w a h s")
      with ok obtain u where "r1 = Inr u"
        by (cases r1) auto
      with p have r: "parse_single_author w a h s = (Inr (), s1)"
        by simp
      show ?thesis
        using a link h r
        by (cases "select_one_text c")
           (simp_all add: parse_single_quote_def complete_def href_of_def quote_of_def)
    qed
  qed
qed

lemma parse_each_resolvable:
  assumes "list_all (resolvable w s) cs"
  shows "case fst (parse_each w cs s) of
           Inl e \<Rightarrow> ExtractionError e \<and> \<not> list_all complete cs
         | Inr qs \<Rightarrow> list_all complete cs \<and> map Some qs = map quote_of cs"
  using assms
proof (induction cs arbitrary: s)
  case Nil
  then show ?case by simp
next
  case (Cons c cs)
  obtain r1 s1 where one: "parse_single_quote w c s = (r1, s1)"
    by (cases "parse_single_quote w c s")
  from Cons.prems have rc: "resolvable w s c" by simp
  note h = parse_single_quote_resolvable [OF rc, unfolded one]
  show ?case
  proof (cases r1)
    case (Inl e)
    with h one show ?thesis by simp
  next
    case (Inr q)
    from parse_single_quote_frame [OF one] have fr: "walk_frame s s1" by simp
    with Cons.prems have "list_all (resolvable w s1) cs"
      by (auto simp: list_all_iff intro: resolvable_mono)
    from Cons.IH [OF this] h one Inr show ?thesis
      by (cases "parse_each w cs s1") (auto split: sum.splits)
  qed
qed

subsection \<open>The loop, one turn at a time\<close>

lemma page_url_1: "page_url w 1 = BASE_URL" "page_url w (Suc 0) = BASE_URL"
  by (simp_all add: page_url_def)

lemma page_url_Suc: "1 \<le> n \<Longrightarrow> page_url w (Suc n) = urljoin w BASE_URL (''page/'' @ str (Suc n) @ ''/'')"
  by (simp add: page_url_def)

lemma next_state_frame:
  "walk_frame s (next_state w n s) \<and>
   listing_requests (fetched (next_state w n s)) =
     listing_requests (fetched s) @ [(Listing (Suc n), page_url w (Suc n))]"
  by (simp add: next_state_def walk_frame_def logging_info_def listing_requests_def)

lemma start_state_frame:
  "walk_frame s (start_state s) \<and>
   listing_requests (fetched (start_state s)) = listing_requests (fetched s) @ [(Listing 1, BASE_URL)] \<and>
   AUTHOR_CACHE (start_state s) = AUTHOR_CACHE s"
  by (simp add: start_state_def walk_frame_def logging_info_def listing_requests_def)

lemma fetch_next:
  "1 \<le> n \<Longrightarrow>
   requests_get w (Listing (n + 1)) (urljoin w BASE_URL (''page/'' @ str (n + 1) @ ''/''))
     (logging_info (''Start parsing page '' @ str (n + 1)) s) =
   (transport w (page_url w (Suc n)), next_state w n s)"
  by (simp add: requests_get_def next_state_def logging_info_def page_url_Suc)



lemma get_quotes_start:
  "get_quotes w s =
     (case transport w BASE_URL of
        Inl e \<Rightarrow> Some (Inl e, start_state s)
      | Inr page \<Rightarrow>
          (case get_single_page_quotes w (content page) (start_state s) of
             (Inl e, s2) \<Rightarrow> Some (Inl e, s2)
           | (Inr all_quotes, s2) \<Rightarrow> get_quotes_loop w (content page) all_quotes 1 s2))"
  by (simp add: get_quotes_def requests_get_def start_state_def logging_info_def split: sum.splits)

subsection \<open>What a walk that returns has done\<close>

text \<open>By induction on the loop as a least fixed point: each turn either halts, aborts or
  hands over to a later turn for which the property holds already.\<close>

lemma loop_post_halt:
  "\<not> is_next_page soup \<Longrightarrow> loop_post w soup acc n s (Inr acc, s)"
  unfolding loop_post_def
  by (auto simp: walk_frame_refl requests_of_pages_def is_last_def intro!: exI [of _ n])

lemma loop_post_abort:
  assumes "is_next_page soup" "walk_frame (next_state w n s) s2"
    "listing_requests (fetched s2) = listing_requests (fetched (next_state w n s))"
  shows "loop_post w soup acc n s (Inl e, s2)"
  unfolding loop_post_def
proof (intro impI)
  assume pre: "1 \<le> n \<and> page_at w n = Some soup"
  have "walk_frame s s2"
    using next_state_frame [of s w n] assms(2) by (blast intro: walk_frame_trans)
  moreover have "listing_requests (fetched s2) =
      listing_requests (fetched s) @ requests_of_pages w [Suc n..<Suc (Suc n)]"
    using next_state_frame [of s w n] assms(3) by (simp add: requests_of_pages_def)
  moreover have "list_all (has_next w) [n..<Suc n]"
    using pre assms(1) by (simp add: has_next_def)
  ultimately show "\<exists>j\<ge>n. walk_frame s (snd (Inl e, s2)) \<and>
          listing_requests (fetched (snd (Inl e, s2))) =
            listing_requests (fetched s) @ requests_of_pages w [Suc n..<Suc j] \<and>
          list_all (has_next w) [n..<j] \<and>
          (\<forall>qs. fst (Inl e, s2) = Inr qs \<longrightarrow>
             is_last w j \<and>
             (\<exists>new. qs = acc @ new \<and>
                map Some new = concat (map (\<lambda>i. map quote_of (quotes_on w i)) [Suc n..<Suc j]) \<and>
                keys (AUTHOR_CACHE (snd (Inl e, s2))) = first_seen (keys (AUTHOR_CACHE s)) (map author new)))"
    by (intro exI [of _ "Suc n"]) simp
qed

lemma loop_post_continue:
  assumes nx: "is_next_page soup"
    and page: "transport w (page_url w (Suc n)) = Inr page"
    and one: "get_single_page_quotes w (content page) (next_state w n s) = (Inr quotes, s2)"
    and rest: "loop_post w (content page) (acc @ quotes) (Suc n) s2 res"
  shows "loop_post w soup acc n s res"
  unfolding loop_post_def
proof (intro impI)
  assume pre: "1 \<le> n \<and> page_at w n = Some soup"
  have at: "page_at w (Suc n) = Some (content page)"
    using page by (simp add: page_at_def)
  from rest at obtain j where j: "Suc n \<le> j"
    and fr: "walk_frame s2 (snd res)"
    and rq: "listing_requests (fetched (snd res)) =
              listing_requests (fetched s2) @ requests_of_pages w [Suc (Suc n)..<Suc j]"
    and nxs: "list_all (has_next w) [Suc n..<j]"
    and ok: "\<forall>qs. fst res = Inr qs \<longrightarrow>
             is_last w j \<and>
             (\<exists>new. qs = (acc @ quotes) @ new \<and>
                map Some new = concat (map (\<lambda>i. map quote_of (quotes_on w i)) [Suc (Suc n)..<Suc j]) \<and>
                keys (AUTHOR_CACHE (snd res)) = first_seen (keys (AUTHOR_CACHE s2)) (map author new))"
    unfolding loop_post_def by auto
  note f1 = get_single_page_quotes_frame [OF one]
  note s1 = get_single_page_quotes_success [OF one]
  note f0 = next_state_frame [of s w n]
  have k0: "AUTHOR_CACHE (next_state w n s) = AUTHOR_CACHE s"
    by (simp add: next_state_def logging_info_def)
  have "walk_frame s (snd res)"
    using f0 f1 fr by (blast intro: walk_frame_trans)
  moreover have "listing_requests (fetched (snd res)) =
      listing_requests (fetched s) @ requests_of_pages w [Suc n..<Suc j]"
  proof -
    have "[Suc n..<Suc j] = Suc n # [Suc (Suc n)..<Suc j]"
      using j by (simp add: upt_conv_Cons del: upt_Suc)
    then show ?thesis
      using f0 f1 rq by (simp add: requests_of_pages_def del: upt_Suc)
  qed
  moreover have "list_all (has_next w) [n..<j]"
    using nxs j pre nx by (simp add: upt_conv_Cons [of n] has_next_def)
  moreover have "\<forall>qs. fst res = Inr qs \<longrightarrow>
             is_last w j \<and>
             (\<exists>new. qs = acc @ new \<and>
                map Some new = concat (map (\<lambda>i. map quote_of (quotes_on w i)) [Suc n..<Suc j]) \<and>
                keys (AUTHOR_CACHE (snd res)) = first_seen (keys (AUTHOR_CACHE s)) (map author new))"
  proof (intro allI impI)
    fix qs assume "fst res = Inr qs"
    with ok obtain new where last: "is_last w j" and qs: "qs = (acc @ quotes) @ new"
      and new: "map Some new = concat (map (\<lambda>i. map quote_of (quotes_on w i)) [Suc (Suc n)..<Suc j])"
      and ks: "keys (AUTHOR_CACHE (snd res)) = first_seen (keys (AUTHOR_CACHE s2)) (map author new)"
      by blast
    have here: "map quote_of (quotes_on w (Suc n)) = map Some quotes"
      using s1 at by (simp add: quotes_on_def)
    have "[Suc n..<Suc j] = Suc n # [Suc (Suc n)..<Suc j]"
      using j by (simp add: upt_conv_Cons del: upt_Suc)
    then have "map Some (quotes @ new) =
        concat (map (\<lambda>i. map quote_of (quotes_on w i)) [Suc n..<Suc j])"
      using here new by (simp del: upt_Suc)
    moreover have "keys (AUTHOR_CACHE (snd res)) =
        first_seen (keys (AUTHOR_CACHE s)) (map author (quotes @ new))"
      using ks s1 k0 by (simp add: first_seen_append)
    ultimately show "is_last w j \<and>
             (\<exists>new. qs = acc @ new \<and>
                map Some new = concat (map (\<lambda>i. map quote_of (quotes_on w i)) [Suc n..<Suc j]) \<and>
                keys (AUTHOR_CACHE (snd res)) = first_seen (keys (AUTHOR_CACHE s)) (map author new))"
      using last qs by (intro conjI exI [of _ "quotes @ new"]) simp_all
  qed
  ultimately show "\<exists>j\<ge>n. walk_frame s (snd res) \<and>
          listing_requests (fetched (snd res)) =
            listing_requests (fetched s) @ requests_of_pages w [Suc n..<Suc j] \<and>
          list_all (has_next w) [n..<j] \<and>
          (\<forall>qs. fst res = Inr qs \<longrightarrow>
             is_last w j \<and>
             (\<exists>new. qs = acc @ new \<and>
                map Some new = concat (map (\<lambda>i. map quote_of (quotes_on w i)) [Suc n..<Suc j]) \<and>
                keys (AUTHOR_CACHE (snd res)) = first_seen (keys (AUTHOR_CACHE s)) (map author new)))"
    using j by (intro exI [of _ j]) simp
qed

lemma get_quotes_loop_post:
  assumes "get_quotes_loop w soup acc n s = Some res"
  shows "loop_post w soup acc n s res"
  using assms
proof (induction rule: get_quotes_loop.raw_induct [rotated 1, consumes 1, case_names step])
  case (step loop w soup acc n s res)
  show ?case
  proof (cases "1 \<le> n")
    case False
    then show ?thesis by (simp add: loop_post_def)
  next
    case n: True
    note body = step.hyps [unfolded fetch_next [OF n]]
    show ?thesis
    proof (cases "is_next_page soup")
      case False
      with step.hyps have "res = (Inr acc, s)" by simp
      with False show ?thesis by (simp add: loop_post_halt)
    next
      case nx: True
      show ?thesis
      proof (cases "transport w (page_url w (Suc n))")
        case (Inl e)
        with body nx have "res = (Inl e, next_state w n s)"
          by simp
        with nx show ?thesis
          by (simp add: loop_post_abort walk_frame_refl)
      next
        case (Inr page)
        obtain r2 s2 where one: "get_single_page_quotes w (content page) (next_state w n s) = (r2, s2)"
          by (cases "get_single_page_quotes w (content page) (next_state w n s)")
        note f1 = get_single_page_quotes_frame [OF one]
        show ?thesis
        proof (cases r2)
          case (Inl e)
          with body nx Inr one have "res = (Inl e, s2)"
            by simp
          with nx f1 show ?thesis
            by (simp add: loop_post_abort)
        next
          case quotes: (Inr quotes)
          with body nx Inr one
          have "loop w (content page) (acc @ quotes) (Suc n) s2 = Some res"
            by simp
          then have "loop_post w (content page) (acc @ quotes) (Suc n) s2 res"
            by (rule step.IH)
          with nx Inr one quotes show ?thesis
            by (blast intro: loop_post_continue)
        qed
      qed
    qed
  qed
qed

lemma get_quotes_post:
  assumes "get_quotes w s = Some (r, s')"
  shows "walk_frame s s' \<and>
     (\<exists>j\<ge>1. listing_requests (fetched s') = listing_requests (fetched s) @ requests_of_pages w [1..<Suc j] \<and>
        list_all (has_next w) [1..<j] \<and>
        (\<forall>qs. r = Inr qs \<longrightarrow>
           is_last w j \<and> map Some qs = page_quotes w j \<and>
           keys (AUTHOR_CACHE s') = first_seen (keys (AUTHOR_CACHE s)) (map author qs)))"
proof (cases "transport w BASE_URL")
  case (Inl e)
  with assms have "r = Inl e" "s' = start_state s"
    by (simp_all add: get_quotes_start)
  then show ?thesis
    using start_state_frame [of s]
    by (auto simp: requests_of_pages_def page_url_1 intro!: exI [of _ 1])
next
  case (Inr page)
  obtain r2 s2 where one: "get_single_page_quotes w (content page) (start_state s) = (r2, s2)"
    by (cases "get_single_page_quotes w (content page) (start_state s)")
  note f1 = get_single_page_quotes_frame [OF one]
  note f0 = start_state_frame [of s]
  show ?thesis
  proof (cases r2)
    case (Inl e)
    with assms Inr one have "r = Inl e" "s' = s2"
      by (simp_all add: get_quotes_start)
    then show ?thesis
      using f0 f1
      by (auto simp: requests_of_pages_def page_url_1 intro: walk_frame_trans intro!: exI [of _ 1])
  next
    case quotes: (Inr quotes)
    with assms Inr one have "get_quotes_loop w (content page) quotes 1 s2 = Some (r, s')"
      by (simp add: get_quotes_start)
    then have post: "loop_post w (content page) quotes 1 s2 (r, s')"
      by (rule get_quotes_loop_post)
    have at: "page_at w 1 = Some (content page)"
      using Inr by (simp add: page_at_def page_url_1)
    from post at obtain j where j: "1 \<le> j"
      and fr: "walk_frame s2 s'"
      and rq: "listing_requests (fetched s') =
              listing_requests (fetched s2) @ requests_of_pages w [Suc 1..<Suc j]"
      and nxs: "list_all (has_next w) [1..<j]"
      and ok: "\<forall>qs. r = Inr qs \<longrightarrow>
             is_last w j \<and>
             (\<exists>new. qs = quotes @ new \<and>
                map Some new = concat (map (\<lambda>i. map quote_of (quotes_on w i)) [Suc 1..<Suc j]) \<and>
                keys (AUTHOR_CACHE s') = first_seen (keys (AUTHOR_CACHE s2)) (map author new))"
      unfolding loop_post_def by auto
    note s1 = get_single_page_quotes_success [OF one [unfolded quotes]]
    have upt: "[1..<Suc j] = 1 # [Suc 1..<Suc j]"
      using j by (simp add: upt_conv_Cons del: upt_Suc)
    have "walk_frame s s'"
      using f0 f1 fr by (blast intro: walk_frame_trans)
    moreover have "listing_requests (fetched s') =
        listing_requests (fetched s) @ requests_of_pages w [1..<Suc j]"
      using f0 f1 rq upt by (simp add: requests_of_pages_def page_url_1 del: upt_Suc)
    moreover have "\<forall>qs. r = Inr qs \<longrightarrow>
           is_last w j \<and> map Some qs = page_quotes w j \<and>
           keys (AUTHOR_CACHE s') = first_seen (keys (AUTHOR_CACHE s)) (map author qs)"
    proof (intro allI impI)
      fix qs assume "r = Inr qs"
      with ok obtain new where last: "is_last w j" and qs: "qs = quotes @ new"
        and new: "map Some new = concat (map (\<lambda>i. map quote_of (quotes_on w i)) [Suc 1..<Suc j])"
        and ks: "keys (AUTHOR_CACHE s') = first_seen (keys (AUTHOR_CACHE s2)) (map author new)"
        by blast
      have "map quote_of (quotes_on w 1) = map Some quotes"
        using s1 at by (simp add: quotes_on_def)
      then have "map Some qs = page_quotes w j"
        using new qs upt by (simp add: page_quotes_def del: upt_Suc)
      moreover have "keys (AUTHOR_CACHE s') = first_seen (keys (AUTHOR_CACHE s)) (map author qs)"
        using ks s1 f0 qs by (simp add: first_seen_append)
      ultimately show "is_last w j \<and> map Some qs = page_quotes w j \<and>
           keys (AUTHOR_CACHE s') = first_seen (keys (AUTHOR_CACHE s)) (map author qs)"
        using last by simp
    qed
    ultimately show ?thesis using j nxs by blast
  qed
qed



subsection \<open>The walk returns on a finite chain\<close>






lemma get_quotes_Inr:
  assumes "get_quotes w s = Some (Inr quotes, s1)"
  shows "\<exists>k. chain w k \<and> map Some quotes = page_quotes w k \<and>
           listing_requests (fetched s1) = listing_requests (fetched s) @ requests_of_pages w [1..<Suc k] \<and>
           keys (AUTHOR_CACHE s1) = first_seen (keys (AUTHOR_CACHE s)) (map author quotes)"
  using get_quotes_post [OF assms] by (auto simp: chain_def)

lemma walk_one_entry_per_author:
  assumes "distinct (keys (AUTHOR_CACHE s))" "get_quotes w s = Some (Inr quotes, s1)"
  shows "distinct (keys (AUTHOR_CACHE s1)) \<and>
         set (keys (AUTHOR_CACHE s1)) = set (keys (AUTHOR_CACHE s)) \<union> author ` set quotes \<and>
         (\<forall>q\<in>set quotes. length (filter (\<lambda>entry. fst entry = author q) (AUTHOR_CACHE s1)) = 1)"
proof -
  from get_quotes_Inr [OF assms(2)]
  have ks: "keys (AUTHOR_CACHE s1) = first_seen (keys (AUTHOR_CACHE s)) (map author quotes)"
    by blast
  then have d: "distinct (keys (AUTHOR_CACHE s1))"
    using assms(1) by (simp add: distinct_first_seen)
  have st: "set (keys (AUTHOR_CACHE s1)) = set (keys (AUTHOR_CACHE s)) \<union> author ` set quotes"
    using ks by (simp add: set_first_seen)
  have "\<forall>q\<in>set quotes. length (filter (\<lambda>entry. fst entry = author q) (AUTHOR_CACHE s1)) = 1"
  proof
    fix q assume "q \<in> set quotes"
    then have "author q \<in> set (keys (AUTHOR_CACHE s1))" using st by simp
    with d show "length (filter (\<lambda>entry. fst entry = author q) (AUTHOR_CACHE s1)) = 1"
      by (rule one_entry_per_key)
  qed
  with d st show ?thesis by blast
qed

subsection \<open>The status of a response is never read\<close>












subsection \<open>Writing the files\<close>

lemma write_csv_Inr:
  "write_csv w path rows s = (Inr x, s') \<Longrightarrow>
     s' = s\<lparr>opened := opened s @ [path], files := (files s)(path \<mapsto> rows)\<rparr>"
  by (auto simp: write_csv_def split: io_outcome.splits)

lemma write_csv_Inl:
  "write_csv w path rows s = (Inl e, s') \<Longrightarrow>
     e = OSError \<and> opened s' = opened s @ [path] \<and> AUTHOR_CACHE s' = AUTHOR_CACHE s \<and>
     (\<forall>other. other \<noteq> path \<longrightarrow> files s' other = files s other)"
  by (auto simp: write_csv_def split: io_outcome.splits)

lemma main_Some:
  assumes "main w path s = Some (r, s')"
  shows "(\<exists>e. get_quotes w s = Some (Inl e, s') \<and> r = Inl e) \<or>
         (\<exists>quotes s1. get_quotes w s = Some (Inr quotes, s1) \<and>
            ((\<exists>e. write_quotes_to_csv w path quotes s1 = (Inl e, s') \<and> r = Inl e) \<or>
             (\<exists>s2. write_quotes_to_csv w path quotes s1 = (Inr (), s2) \<and>
                    write_author_to_csv w ''author.csv'' s2 = (r, s'))))"
  using assms
  by (auto simp: main_def split: option.splits sum.splits prod.splits)

lemma main_Inr:
  assumes "main w path s = Some (Inr x, s')"
  shows "\<exists>quotes s1 s2. get_quotes w s = Some (Inr quotes, s1) \<and>
            write_quotes_to_csv w path quotes s1 = (Inr (), s2) \<and>
            write_author_to_csv w ''author.csv'' s2 = (Inr (), s')"
  using main_Some [OF assms] by (auto dest: write_csv_Inl simp: write_quotes_to_csv_def)

section \<open>The properties\<close>

subsection \<open>C1: the rows of the quotes file\<close>




subsection \<open>C2: the pagination walk\<close>



subsection \<open>C3: what makes a fetch fail\<close>




subsection \<open>C4: resolving a cached author\<close>



subsection \<open>C5: every quote's author is in the cache\<close>

text \<open>
  C5: when \<^verbatim>\<open>parse_single_quote\<close> returns a Quote, its author is a key of the cache in the
  state it returns, so the resolution has happened before the Quote exists; and at the
  end of a walk that returns quotes, the author of every quote returned is the key of
  exactly one cache entry.
\<close>

theorem quote_authors_resolved:
  "(parse_single_quote w quote_soup s = (Inr q, s1) \<longrightarrow> author q \<in> set (keys (AUTHOR_CACHE s1))) \<and>
   (distinct (keys (AUTHOR_CACHE s)) \<and> get_quotes w s = Some (Inr quotes, s') \<longrightarrow>
      (\<forall>q\<in>set quotes. length (filter (\<lambda>entry. fst entry = author q) (AUTHOR_CACHE s')) = 1))"
proof (intro conjI impI)
  assume "parse_single_quote w quote_soup s = (Inr q, s1)"
  from parse_single_quote_success [OF this]
  show "author q \<in> set (keys (AUTHOR_CACHE s1))" by simp
next
  assume "distinct (keys (AUTHOR_CACHE s)) \<and> get_quotes w s = Some (Inr quotes, s')"
  then show "\<forall>q\<in>set quotes. length (filter (\<lambda>entry. fst entry = author q) (AUTHOR_CACHE s')) = 1"
    using walk_one_entry_per_author by blast
qed

theorem quote_authors_resolved_witness:
  "parse_single_quote demo_world (container ''To be.'' ''Alice'' ''author/alice'' [''life'']) (fresh Map.empty) =
     (Inr (hd demo_quotes),
      snd (parse_single_quote demo_world (container ''To be.'' ''Alice'' ''author/alice'' [''life'']) (fresh Map.empty))) \<and>
   author (hd demo_quotes) \<in> set (keys (AUTHOR_CACHE
      (snd (parse_single_quote demo_world (container ''To be.'' ''Alice'' ''author/alice'' [''life'']) (fresh Map.empty))))) \<and>
   distinct (keys (AUTHOR_CACHE (fresh Map.empty))) \<and>
   get_quotes demo_world (fresh Map.empty) =
     Some (Inr demo_quotes, the (map_option snd (get_quotes demo_world (fresh Map.empty)))) \<and>
   map (\<lambda>q. length (filter (\<lambda>entry. fst entry = author q)
      (AUTHOR_CACHE (the (map_option snd (get_quotes demo_world (fresh Map.empty)))))))
     demo_quotes = [1, 1, 1]"
proof -
  have one: "parse_single_quote demo_world (container ''To be.'' ''Alice'' ''author/alice'' [''life'']) (fresh Map.empty) =
     (Inr (hd demo_quotes),
      snd (parse_single_quote demo_world (container ''To be.'' ''Alice'' ''author/alice'' [''life'']) (fresh Map.empty)))"
    by (simp add: run_defs demo_defs)
  have d: "distinct (keys (AUTHOR_CACHE (fresh Map.empty)))"
    by (simp add: fresh_def keys_def)
  have walk: "get_quotes demo_world (fresh Map.empty) =
     Some (Inr demo_quotes, the (map_option snd (get_quotes demo_world (fresh Map.empty))))"
    by (simp add: run_defs demo_defs)
  from quote_authors_resolved
    [of demo_world "container ''To be.'' ''Alice'' ''author/alice'' [''life'']" "fresh Map.empty"
        "hd demo_quotes"
        "snd (parse_single_quote demo_world (container ''To be.'' ''Alice'' ''author/alice'' [''life'']) (fresh Map.empty))"
        demo_quotes "the (map_option snd (get_quotes demo_world (fresh Map.empty)))"]
    one d walk
  have key: "author (hd demo_quotes) \<in> set (keys (AUTHOR_CACHE
      (snd (parse_single_quote demo_world (container ''To be.'' ''Alice'' ''author/alice'' [''life'']) (fresh Map.empty)))))"
    and each: "\<forall>q\<in>set demo_quotes. length (filter (\<lambda>entry. fst entry = author q)
      (AUTHOR_CACHE (the (map_option snd (get_quotes demo_world (fresh Map.empty)))))) = 1"
    by blast+
  from each have "map (\<lambda>q. length (filter (\<lambda>entry. fst entry = author q)
      (AUTHOR_CACHE (the (map_option snd (get_quotes demo_world (fresh Map.empty)))))))
     demo_quotes = [1, 1, 1]"
    by (simp add: demo_quotes_def)
  with key one d walk show ?thesis by blast
qed

subsection \<open>C6: a failed resolution leaves the cache alone\<close>

text \<open>
  C6: resolving an author fails exactly on a cache miss whose profile page cannot be
  fetched or lacks one of the four nodes. The exception is the transport's, or the
  \<^verbatim>\<open>AttributeError\<close> of the missing node, and the cache is what it was before the call: the
  name is still not a key.
\<close>

theorem failed_resolution_leaves_cache:
  "(isl (fst (parse_single_author w author_name author_url s)) \<longleftrightarrow>
      author_name \<notin> set (keys (AUTHOR_CACHE s)) \<and> \<not> profile_ok w author_url) \<and>
   (parse_single_author w author_name author_url s = (Inl e, s') \<longrightarrow>
      AUTHOR_CACHE s' = AUTHOR_CACHE s \<and> author_name \<notin> set (keys (AUTHOR_CACHE s')) \<and>
      (transport w (urljoin w BASE_URL author_url) = Inl e \<or> e = AttributeError))"
proof (intro conjI impI)
  show "isl (fst (parse_single_author w author_name author_url s)) \<longleftrightarrow>
      author_name \<notin> set (keys (AUTHOR_CACHE s)) \<and> \<not> profile_ok w author_url"
    by (rule parse_single_author_isl)
next
  assume f: "parse_single_author w author_name author_url s = (Inl e, s')"
  then have "isl (fst (parse_single_author w author_name author_url s))" by simp
  then have miss: "author_name \<notin> set (keys (AUTHOR_CACHE s))"
    by (simp add: parse_single_author_isl)
  from parse_single_author_failure [OF f] show "AUTHOR_CACHE s' = AUTHOR_CACHE s" .
  with miss show "author_name \<notin> set (keys (AUTHOR_CACHE s'))" by simp
  from parse_single_author_Inl [OF f]
  show "transport w (urljoin w BASE_URL author_url) = Inl e \<or> e = AttributeError" .
qed

theorem failed_resolution_leaves_cache_witness:
  "parse_single_author missing_profile_world ''Alice'' ''author/alice'' (fresh Map.empty) =
     (Inl AttributeError, snd (parse_single_author missing_profile_world ''Alice'' ''author/alice'' (fresh Map.empty))) \<and>
   AUTHOR_CACHE (snd (parse_single_author missing_profile_world ''Alice'' ''author/alice'' (fresh Map.empty))) =
     AUTHOR_CACHE (fresh Map.empty) \<and>
   parse_single_author offline_world ''Bob'' ''author/bob'' alice_cached =
     (Inl RequestException, snd (parse_single_author offline_world ''Bob'' ''author/bob'' alice_cached)) \<and>
   AUTHOR_CACHE (snd (parse_single_author offline_world ''Bob'' ''author/bob'' alice_cached)) =
     AUTHOR_CACHE alice_cached"
proof -
  have a: "parse_single_author missing_profile_world ''Alice'' ''author/alice'' (fresh Map.empty) =
     (Inl AttributeError, snd (parse_single_author missing_profile_world ''Alice'' ''author/alice'' (fresh Map.empty)))"
    by (simp add: run_defs demo_defs more_defs)
  have b: "parse_single_author offline_world ''Bob'' ''author/bob'' alice_cached =
     (Inl RequestException, snd (parse_single_author offline_world ''Bob'' ''author/bob'' alice_cached))"
    by (simp add: run_defs demo_defs more_defs alice_cached_def)
  from failed_resolution_leaves_cache
    [of missing_profile_world "''Alice''" "''author/alice''" "fresh Map.empty" AttributeError
        "snd (parse_single_author missing_profile_world ''Alice'' ''author/alice'' (fresh Map.empty))"]
    failed_resolution_leaves_cache
    [of offline_world "''Bob''" "''author/bob''" alice_cached RequestException
        "snd (parse_single_author offline_world ''Bob'' ''author/bob'' alice_cached)"]
    a b
  show ?thesis by blast
qed

subsection \<open>C7: when extraction fails\<close>

text \<open>
  C7 as stated: extraction fails with an extraction error if and only if a container
  lacks a required node, and succeeds when every container has them all. Both halves
  fail, because a container's author is resolved inside the extraction: with every node
  present, extraction raises the \<^verbatim>\<open>AttributeError\<close> of a profile page that lacks a node,
  or the transport's exception when the profile page cannot be fetched.
\<close>

theorem extraction_fails_iff_node_absent_counterexample:
  "list_all complete (select_quote demo_first_page) \<and>
   fst (get_single_page_quotes missing_profile_world demo_first_page (fresh Map.empty)) = Inl AttributeError \<and>
   ExtractionError AttributeError \<and>
   fst (get_single_page_quotes offline_world demo_first_page (fresh Map.empty)) = Inl RequestException"
  by (simp add: run_defs demo_defs more_defs)

text \<open>
  C7, amended: on a page where the author of every container can be resolved (it is in
  the cache, or its profile page can be fetched and has the four nodes), extraction fails
  if and only if some container lacks the quote text, the author name or a first link
  with an \<^verbatim>\<open>href\<close>; the exception is then an extraction error; and when no container
  lacks any of them, extraction returns one Quote per container, in document order. An
  exception raised while the author of a container is resolved is raised by the
  extraction too.
\<close>

theorem extraction_fails_iff_node_absent:
  assumes "list_all (resolvable w s) (select_quote page_soup)"
  shows "(isl (fst (get_single_page_quotes w page_soup s)) \<longleftrightarrow>
            \<not> list_all complete (select_quote page_soup)) \<and>
         (\<forall>e. fst (get_single_page_quotes w page_soup s) = Inl e \<longrightarrow> ExtractionError e) \<and>
         (list_all complete (select_quote page_soup) \<longrightarrow>
            (\<exists>quotes. fst (get_single_page_quotes w page_soup s) = Inr quotes \<and>
               length quotes = length (select_quote page_soup) \<and>
               map Some quotes = map quote_of (select_quote page_soup))) \<and>
         (\<forall>c a h e. select_one_author c = Some a \<and> select_one_a c = Some (Some h) \<and>
            fst (parse_single_author w a h s) = Inl e \<longrightarrow>
              fst (parse_single_quote w c s) = Inl e)"
proof -
  have through: "\<forall>c a h e. select_one_author c = Some a \<and> select_one_a c = Some (Some h) \<and>
            fst (parse_single_author w a h s) = Inl e \<longrightarrow>
              fst (parse_single_quote w c s) = Inl e"
    by (auto simp: parse_single_quote_def href_of_def split: prod.splits)
  show ?thesis
  proof (cases "fst (get_single_page_quotes w page_soup s)")
    case (Inl e)
    with parse_each_resolvable [OF assms] through show ?thesis
      by (simp add: get_single_page_quotes_def)
  next
    case (Inr quotes)
    with parse_each_resolvable [OF assms]
    have c: "list_all complete (select_quote page_soup)"
      and m: "map Some quotes = map quote_of (select_quote page_soup)"
      by (simp_all add: get_single_page_quotes_def)
    from m have "length (map Some quotes) = length (map quote_of (select_quote page_soup))"
      by simp
    then have "length quotes = length (select_quote page_soup)" by simp
    with Inr c m through show ?thesis by simp
  qed
qed

theorem extraction_fails_iff_node_absent_witness:
  "list_all (resolvable demo_world (fresh Map.empty)) (select_quote demo_first_page) \<and>
   list_all complete (select_quote demo_first_page) \<and>
   (\<exists>quotes. fst (get_single_page_quotes demo_world demo_first_page (fresh Map.empty)) = Inr quotes \<and>
      length quotes = length (select_quote demo_first_page) \<and>
      map Some quotes = map quote_of (select_quote demo_first_page)) \<and>
   list_all (resolvable demo_world (fresh Map.empty)) (select_quote broken_page) \<and>
   \<not> list_all complete (select_quote broken_page) \<and>
   isl (fst (get_single_page_quotes demo_world broken_page (fresh Map.empty))) \<and>
   ExtractionError (projl (fst (get_single_page_quotes demo_world broken_page (fresh Map.empty))))"
proof -
  have r': "list_all (resolvable demo_world (fresh Map.empty)) (select_quote broken_page)"
    by (simp add: run_defs demo_defs more_defs broken_page_def)
  have c': "\<not> list_all complete (select_quote broken_page)"
    by (simp add: demo_defs more_defs broken_page_def)
  have r: "list_all (resolvable demo_world (fresh Map.empty)) (select_quote demo_first_page)"
    by (simp add: run_defs demo_defs more_defs)
  have c: "list_all complete (select_quote demo_first_page)"
    by (simp add: demo_defs more_defs)
  from extraction_fails_iff_node_absent [OF r'] c'
  have f: "isl (fst (get_single_page_quotes demo_world broken_page (fresh Map.empty)))"
    and e: "\<forall>e. fst (get_single_page_quotes demo_world broken_page (fresh Map.empty)) = Inl e \<longrightarrow>
      ExtractionError e"
    by blast+
  from f e have "ExtractionError (projl (fst (get_single_page_quotes demo_world broken_page (fresh Map.empty))))"
    by (cases "fst (get_single_page_quotes demo_world broken_page (fresh Map.empty))") simp_all
  with extraction_fails_iff_node_absent [OF r] r c r' c' f show ?thesis by blast
qed

subsection \<open>C8: a failed walk writes nothing\<close>



subsection \<open>C9: the authors file\<close>

text \<open>
  C9: in a run that completes, the second and last file opened is \<^verbatim>\<open>author.csv\<close>, whatever
  path the caller gave for the quotes. It holds the header \<^verbatim>\<open>name\<close>, \<^verbatim>\<open>born_date\<close>,
  \<^verbatim>\<open>born_location\<close>, \<^verbatim>\<open>description\<close> and then one row per entry of the cache, in the
  order of the cache, which is the entries it had before the run followed by the authors
  of the quotes in the order in which each was first seen.
\<close>

theorem authors_file_rows:
  assumes "main w output_csv_path s = Some (Inr (), s')"
  shows "\<exists>quotes new. outcome (get_quotes w s) = Some (Inr quotes) \<and>
           opened s' = opened s @ [output_csv_path, ''author.csv''] \<and>
           files s' ''author.csv'' =
             Some ([Str ''name'', Str ''born_date'', Str ''born_location'', Str ''description'']
                   # map astuple_Author (dict_values (AUTHOR_CACHE s'))) \<and>
           AUTHOR_CACHE s' = AUTHOR_CACHE s @ new \<and>
           keys (AUTHOR_CACHE s') = first_seen (keys (AUTHOR_CACHE s)) (map author quotes)"
proof -
  from main_Inr [OF assms] obtain quotes s1 s2 where
    walk: "get_quotes w s = Some (Inr quotes, s1)" and
    wq: "write_quotes_to_csv w output_csv_path quotes s1 = (Inr (), s2)" and
    wa: "write_author_to_csv w ''author.csv'' s2 = (Inr (), s')"
    by blast
  note q = write_csv_Inr [OF wq [unfolded write_quotes_to_csv_def]]
  note a = write_csv_Inr [OF wa [unfolded write_author_to_csv_def]]
  from get_quotes_post [OF walk] obtain new where
    fr: "opened s1 = opened s" "AUTHOR_CACHE s1 = AUTHOR_CACHE s @ new" and
    ks: "keys (AUTHOR_CACHE s1) = first_seen (keys (AUTHOR_CACHE s)) (map author quotes)"
    by (auto simp: walk_frame_def)
  have c: "AUTHOR_CACHE s' = AUTHOR_CACHE s1" "AUTHOR_CACHE s2 = AUTHOR_CACHE s1"
    using q a by simp_all
  have "files s' ''author.csv'' =
      Some (header AUTHOR_FIELDS # map astuple_Author (dict_values (AUTHOR_CACHE s')))"
    using a c by simp
  moreover have "opened s' = opened s @ [output_csv_path, ''author.csv'']"
    using q a fr by simp
  ultimately show ?thesis
    using walk fr ks c by (auto simp: outcome_def header_def AUTHOR_FIELDS_def)
qed

theorem authors_file_rows_witness:
  "main demo_world ''quotes.csv'' (fresh Map.empty) =
     Some (Inr (), the (map_option snd (main demo_world ''quotes.csv'' (fresh Map.empty)))) \<and>
   files (the (map_option snd (main demo_world ''quotes.csv'' (fresh Map.empty)))) ''author.csv'' =
     Some [[Str ''name'', Str ''born_date'', Str ''born_location'', Str ''description''],
           [Str ''Alice A.'', Str ''May 1, 1900'', Str ''in Paris'', Str ''A writer.''],
           [Str ''Bob'', Str ''June 2, 1901'', Str ''in Rome'', Str ''A poet.'']] \<and>
   keys (AUTHOR_CACHE (the (map_option snd (main demo_world ''quotes.csv'' (fresh Map.empty))))) =
     [''Alice'', ''Bob'']"
proof -
  have run: "main demo_world ''quotes.csv'' (fresh Map.empty) =
     Some (Inr (), the (map_option snd (main demo_world ''quotes.csv'' (fresh Map.empty))))"
    by (simp add: run_defs demo_defs)
  have walk: "outcome (get_quotes demo_world (fresh Map.empty)) = Some (Inr demo_quotes)"
    by (simp add: run_defs demo_defs)
  have cache: "dict_values (AUTHOR_CACHE (the (map_option snd (main demo_world ''quotes.csv'' (fresh Map.empty))))) =
     [\<lparr>name = ''Alice A.'', born_date = ''May 1, 1900'', born_location = ''in Paris'', description = ''A writer.''\<rparr>,
      \<lparr>name = ''Bob'', born_date = ''June 2, 1901'', born_location = ''in Rome'', description = ''A poet.''\<rparr>]"
    by (simp add: run_defs demo_defs)
  from authors_file_rows [OF run] obtain quotes where
    q: "outcome (get_quotes demo_world (fresh Map.empty)) = Some (Inr quotes)" and
    f: "files (the (map_option snd (main demo_world ''quotes.csv'' (fresh Map.empty)))) ''author.csv'' =
       Some ([Str ''name'', Str ''born_date'', Str ''born_location'', Str ''description'']
             # map astuple_Author (dict_values (AUTHOR_CACHE (the (map_option snd (main demo_world ''quotes.csv'' (fresh Map.empty)))))))" and
    k: "keys (AUTHOR_CACHE (the (map_option snd (main demo_world ''quotes.csv'' (fresh Map.empty))))) =
       first_seen (keys (AUTHOR_CACHE (fresh Map.empty))) (map author quotes)"
    by blast
  from q walk have "quotes = demo_quotes" by simp
  with k have "keys (AUTHOR_CACHE (the (map_option snd (main demo_world ''quotes.csv'' (fresh Map.empty))))) =
      [''Alice'', ''Bob'']"
    by (simp add: fresh_def keys_def demo_quotes_def)
  moreover from f cache have
    "files (the (map_option snd (main demo_world ''quotes.csv'' (fresh Map.empty)))) ''author.csv'' =
     Some [[Str ''name'', Str ''born_date'', Str ''born_location'', Str ''description''],
           [Str ''Alice A.'', Str ''May 1, 1900'', Str ''in Paris'', Str ''A writer.''],
           [Str ''Bob'', Str ''June 2, 1901'', Str ''in Rome'', Str ''A poet.'']]"
    by (simp add: astuple_Author_def)
  ultimately show ?thesis using run by blast
qed

subsection \<open>C10: the quotes file is written first\<close>




end
